theory Spec2Isabelle
  imports
    Complex_Main
    "HOL-Library.Word"
    "HOL-Library.FSet"
    "HOL-Library.Finite_Map"
    "HOL-Library.Char_ord"
    "HOL-Library.List_Lexorder"
    "HOL-Library.Signed_Division"
begin

section \<open>Voting power and quorum accounting of the validator manager\<close>

text \<open>
  A shallow embedding of \<^verbatim>\<open>core/validator_manager.go\<close>. Voting powers are
  \<^verbatim>\<open>*big.Int\<close> values, modelled as \<^typ>\<open>int\<close>: exact, unbounded arithmetic.
  The pointers stored in a weight map and the message pointers of a slice are taken
  to be non-nil (a nil one makes the Go code panic at its first use).
  The reader/writer lock \<^verbatim>\<open>vpLock\<close> has no counterpart: every operation is
  modelled as it runs alone, from taking the lock to releasing it.
\<close>

subsection \<open>The operations of \<^verbatim>\<open>math/big\<close> that the code uses\<close>

text \<open>
  \<^verbatim>\<open>Int.Div\<close> is Euclidean division: the remainder is never negative. It panics on
  a zero divisor; the only divisor in this file is the constant 3.
\<close>

definition big_Div :: "int \<Rightarrow> int \<Rightarrow> int" where
  "big_Div x y = (if 0 < y then x div y else - (x div (- y)))"

text \<open>\<^verbatim>\<open>Int.Cmp\<close> returns -1, 0 or +1.\<close>

definition big_Cmp :: "int \<Rightarrow> int \<Rightarrow> int" where
  "big_Cmp x y = (if x < y then - 1 else if x = y then 0 else 1)"

subsection \<open>Data\<close>

text \<open>
  An address is a Go \<^verbatim>\<open>string\<close> or \<^verbatim>\<open>[]byte\<close>: a sequence of bytes, compared
  byte by byte. The conversion \<^verbatim>\<open>string(b)\<close> keeps the bytes, so both are
  \<^typ>\<open>string\<close> here and the conversion is the identity.
\<close>

type_synonym address = string

text \<open>
  A Go map has finitely many keys, each once. A variable of map type can also be
  \<^verbatim>\<open>nil\<close>, which is \<^term>\<open>None\<close> where the code can tell the difference.
\<close>

type_synonym votingPowers = "(address, int) fmap"

datatype error = errVotingPowerNotCorrect | BackendFailure string

text \<open>
  The backend interface: the answer to each call, either an error or a value.
  \<^verbatim>\<open>GetVotingPowers\<close> is a function of the height (the spec asks for a
  deterministic one), and the map it returns is not changed afterwards.
\<close>

record ValidatorBackend =
  GetVotingPowers :: "64 word \<Rightarrow> error + votingPowers option"
  GetMinerAddress :: "error + string"

text \<open>
  Modelled from the spec: the interface \<^verbatim>\<open>Logger\<close> is declared in another file.
  The spec calls it a sink accepting error-level free-form diagnostic messages; the
  sink is the list of the entries written so far, and only \<^verbatim>\<open>Error\<close> is called here.
\<close>

datatype log_entry = Error string

text \<open>
  Modelled from the spec: the message type \<^verbatim>\<open>proto.Message\<close> is declared in
  another package. The spec describes it as any value exposing a \<^verbatim>\<open>From\<close> address
  field, opaque otherwise; the code reads that field only.
\<close>

record Message =
  From :: address

record ValidatorManager =
  quorumSize :: int
  validatorsVotingPower :: "votingPowers option"
  minerAddress :: string
  backend :: ValidatorBackend
  logger :: "log_entry list"

subsection \<open>Ranging over a map\<close>

text \<open>
  \<^verbatim>\<open>for k, v := range m\<close> visits every entry once, in an order that Go leaves
  open. The model visits the keys in increasing order; the lemmas
  \<open>addPowers_any_order\<close> and \<open>addVotes_any_order\<close> below show that the loops of this
  file compute the same in every other order. Ranging over a nil map visits nothing.
\<close>

definition range_keys :: "address fset \<Rightarrow> address list" where
  "range_keys s = sorted_list_of_fset s"

definition range_entries :: "votingPowers option \<Rightarrow> (address \<times> int) list" where
  "range_entries m = (case m of None \<Rightarrow> [] | Some vp \<Rightarrow> sorted_list_of_fmap vp)"

subsection \<open>Quorum arithmetic\<close>

definition calculateQuorum :: "int \<Rightarrow> int" where
  "calculateQuorum totalVotingPower =
     (let quorum = totalVotingPower * 2 in big_Div quorum 3 + 1)"

fun addPowers :: "(address \<times> int) list \<Rightarrow> int \<Rightarrow> int" where
  "addPowers [] totalVotingPower = totalVotingPower"
| "addPowers ((_, validatorVotingPower) # rest) totalVotingPower =
     addPowers rest (totalVotingPower + validatorVotingPower)"

definition calculateTotalVotingPower :: "votingPowers option \<Rightarrow> int" where
  "calculateTotalVotingPower validatorsVotingPower' =
     addPowers (range_entries validatorsVotingPower') 0"

subsection \<open>The validator manager\<close>

definition NewValidatorManager ::
  "ValidatorBackend \<Rightarrow> log_entry list \<Rightarrow> error + ValidatorManager" where
  "NewValidatorManager backend' log' =
     (case GetMinerAddress backend' of
        Inl err \<Rightarrow> Inl err
      | Inr minerAddress' \<Rightarrow>
          Inr \<lparr>quorumSize = 0, validatorsVotingPower = None,
               minerAddress = minerAddress', backend = backend', logger = log'\<rparr>)"

text \<open>The result is the returned error (\<^term>\<open>None\<close> for nil) and the manager afterwards.\<close>

definition setCurrentVotingPower ::
  "ValidatorManager \<Rightarrow> votingPowers option \<Rightarrow> error option \<times> ValidatorManager" where
  "setCurrentVotingPower vm validatorsVotingPower' =
     (let totalVotingPower = calculateTotalVotingPower validatorsVotingPower' in
      if big_Cmp totalVotingPower 0 \<le> 0 then (Some errVotingPowerNotCorrect, vm)
      else (None, vm\<lparr>validatorsVotingPower := validatorsVotingPower',
                      quorumSize := calculateQuorum totalVotingPower\<rparr>))"

definition Init :: "ValidatorManager \<Rightarrow> 64 word \<Rightarrow> error option \<times> ValidatorManager" where
  "Init vm height =
     (case GetVotingPowers (backend vm) height of
        Inl err \<Rightarrow> (Some err, vm)
      | Inr validatorsVotingPower' \<Rightarrow> setCurrentVotingPower vm validatorsVotingPower')"

fun addVotes :: "votingPowers \<Rightarrow> address list \<Rightarrow> int \<Rightarrow> int" where
  "addVotes vp [] messageVotePower = messageVotePower"
| "addVotes vp (from # rest) messageVotePower =
     addVotes vp rest
       (case fmlookup vp from of
          Some vote \<Rightarrow> messageVotePower + vote
        | None \<Rightarrow> messageVotePower)"

definition HasQuorum :: "ValidatorManager \<Rightarrow> address fset \<Rightarrow> bool" where
  "HasQuorum vm sendersAddrs =
     (case validatorsVotingPower vm of
        None \<Rightarrow> False
      | Some vp \<Rightarrow>
          (let messageVotePower = addVotes vp (range_keys sendersAddrs) 0
           in big_Cmp messageVotePower (quorumSize vm) \<ge> 0))"

subsection \<open>The prepare quorum\<close>

text \<open>
  The loop over \<^verbatim>\<open>msgs\<close>: \<^term>\<open>None\<close> is the return from inside the loop, at
  the first message sent by the proposer; otherwise the loop ends with the set of
  senders it has collected.
\<close>

fun collectSenders :: "address \<Rightarrow> Message list \<Rightarrow> address fset \<Rightarrow> address fset option" where
  "collectSenders proposerAddress [] sendersAddressesMap = Some sendersAddressesMap"
| "collectSenders proposerAddress (message # rest) sendersAddressesMap =
     (if From message = proposerAddress then None
      else collectSenders proposerAddress rest (finsert (From message) sendersAddressesMap))"

text \<open>
  The phase type \<^verbatim>\<open>stateType\<close> and its constant \<^verbatim>\<open>prepare\<close> are declared in another
  file: the type is the parameter \<^typ>\<open>'s\<close> and the constant is the first argument.
  The result is the returned boolean and the manager afterwards, whose logger holds
  what the call has logged.
\<close>

definition HasPrepareQuorum ::
  "'s \<Rightarrow> ValidatorManager \<Rightarrow> 's \<Rightarrow> Message option \<Rightarrow> Message list \<Rightarrow> bool \<times> ValidatorManager" where
  "HasPrepareQuorum prepare vm stateName proposalMessage msgs =
     (case proposalMessage of
        None \<Rightarrow>
          (if stateName = prepare
           then (False, vm\<lparr>logger := logger vm @
                   [Error ''HasPrepareQuorum - proposalMessage is not set'']\<rparr>)
           else (False, vm))
      | Some proposal \<Rightarrow>
          (let proposerAddress = From proposal in
           case collectSenders proposerAddress msgs {|proposerAddress|} of
             None \<Rightarrow>
               (False, vm\<lparr>logger := logger vm @
                  [Error ''HasPrepareQuorum - proposer is among signers but it is not expected to be'']\<rparr>)
           | Some sendersAddressesMap \<Rightarrow> (HasQuorum vm sendersAddressesMap, vm)))"

fun convertMessageToAddressSet :: "Message list \<Rightarrow> address fset" where
  "convertMessageToAddressSet [] = {||}"
| "convertMessageToAddressSet (x # messages) =
     finsert (From x) (convertMessageToAddressSet messages)"

subsection \<open>Sequences of calls\<close>

datatype 's call =
  CallInit "64 word"
| CallHasQuorum "address fset"
| CallHasPrepareQuorum 's "Message option" "Message list"

fun call_step :: "'s \<Rightarrow> ValidatorManager \<Rightarrow> 's call \<Rightarrow> ValidatorManager" where
  "call_step prepare vm (CallInit height) = snd (Init vm height)"
| "call_step prepare vm (CallHasQuorum sendersAddrs) = vm"
| "call_step prepare vm (CallHasPrepareQuorum stateName proposalMessage msgs) =
     snd (HasPrepareQuorum prepare vm stateName proposalMessage msgs)"

fun run_calls :: "'s \<Rightarrow> ValidatorManager \<Rightarrow> 's call list \<Rightarrow> ValidatorManager" where
  "run_calls prepare vm [] = vm"
| "run_calls prepare vm (c # cs) = run_calls prepare (call_step prepare vm c) cs"

subsection \<open>Consistency of the stored pair\<close>

text \<open>
  The stored threshold belongs to the stored weight mapping: before the first
  successful initialisation the mapping is nil and the threshold is zero, afterwards
  the threshold is the quorum of the total of the stored mapping, which is positive.
\<close>

definition consistent :: "ValidatorManager \<Rightarrow> bool" where
  "consistent vm =
     (case validatorsVotingPower vm of
        None \<Rightarrow> quorumSize vm = 0
      | Some vp \<Rightarrow>
          0 < (\<Sum>k\<in>fset (fmdom vp). the (fmlookup vp k)) \<and>
          quorumSize vm = calculateQuorum (\<Sum>k\<in>fset (fmdom vp). the (fmlookup vp k)))"

subsection \<open>Example validator sets\<close>

text \<open>
  Three validators of weight one: the total is 3 and the quorum is 3. The second
  mapping has total zero. The phases of the examples are numbers, with 1 for
  \<^verbatim>\<open>prepare\<close>.
\<close>

definition weightsABC :: votingPowers where
  "weightsABC = fmap_of_list [(''A'', 1), (''B'', 1), (''C'', 1)]"

definition weightsZero :: votingPowers where
  "weightsZero = fmap_of_list [(''A'', 0), (''B'', 0)]"

definition exampleBackend :: ValidatorBackend where
  "exampleBackend =
     \<lparr>GetVotingPowers = (\<lambda>height.
        if height = 1 then Inr (Some weightsABC)
        else if height = 2 then Inr (Some weightsZero)
        else if height = 3 then Inr None
        else Inl (BackendFailure ''no validator set'')),
      GetMinerAddress = Inr ''A''\<rparr>"

definition managerNew :: ValidatorManager where
  "managerNew =
     \<lparr>quorumSize = 0, validatorsVotingPower = None, minerAddress = ''A'',
      backend = exampleBackend, logger = []\<rparr>"

definition managerABC :: ValidatorManager where
  "managerABC =
     \<lparr>quorumSize = 3, validatorsVotingPower = Some weightsABC, minerAddress = ''A'',
      backend = exampleBackend, logger = []\<rparr>"

definition msgFrom :: "address \<Rightarrow> Message" where
  "msgFrom a = \<lparr>From = a\<rparr>"

section \<open>The loops compute sums\<close>

lemma addPowers_sum_list: "addPowers es acc = acc + sum_list (map snd es)"
  by (induction es acc rule: addPowers.induct) simp_all

lemma addVotes_sum_list:
  "addVotes vp ks acc =
     acc + sum_list (map (\<lambda>k. case fmlookup vp k of Some vote \<Rightarrow> vote | None \<Rightarrow> 0) ks)"
  by (induction ks arbitrary: acc) (simp_all split: option.splits)

lemma distinct_range_keys: "distinct (range_keys s)"
  by (simp add: range_keys_def sorted_list_of_fset.rep_eq)

lemma set_range_keys: "set (range_keys s) = fset s"
  by (simp add: range_keys_def)

lemma addVotes_sum:
  "addVotes vp (range_keys s) acc =
     acc + (\<Sum>k\<in>fset s. case fmlookup vp k of Some vote \<Rightarrow> vote | None \<Rightarrow> 0)"
  by (simp add: addVotes_sum_list sum_list_distinct_conv_sum_set distinct_range_keys
      set_range_keys)

text \<open>Whatever order the senders are visited in, the aggregated power is the same.\<close>

lemma addVotes_any_order:
  "distinct ks \<Longrightarrow> set ks = fset s \<Longrightarrow> addVotes vp ks acc = addVotes vp (range_keys s) acc"
  by (simp add: addVotes_sum_list sum_list_distinct_conv_sum_set distinct_range_keys
      set_range_keys)

lemma addPowers_sum:
  "addPowers (range_entries (Some vp)) acc =
     acc + (\<Sum>k\<in>fset (fmdom vp). the (fmlookup vp k))"
  by (simp add: addPowers_sum_list range_entries_def sorted_list_of_fmap_def comp_def
      sum_list_distinct_conv_sum_set sorted_list_of_fset.rep_eq)

lemma snd_eq_the_map_of:
  "distinct (map fst es) \<Longrightarrow> map snd es = map (\<lambda>k. the (map_of es k)) (map fst es)"
proof (induction es)
  case Nil
  then show ?case by simp
next
  case (Cons e es)
  then have fresh: "fst e \<notin> fst ` set es"
    and IH: "map snd es = map (\<lambda>k. the (map_of es k)) (map fst es)"
    by simp_all
  have "map (\<lambda>k. the (map_of (e # es) k)) (map fst es) =
        map (\<lambda>k. the (map_of es k)) (map fst es)"
  proof (rule map_cong)
    fix k assume "k \<in> set (map fst es)"
    then have "k \<in> fst ` set es" by simp
    with fresh have "k \<noteq> fst e" by blast
    then show "the (map_of (e # es) k) = the (map_of es k)" by simp
  qed simp
  with IH show ?case by simp
qed

text \<open>Whatever order the entries of a map are visited in, the total is the same.\<close>

lemma addPowers_any_order:
  assumes "distinct (map fst es)" and "fmap_of_list es = vp"
  shows "addPowers es acc = addPowers (range_entries (Some vp)) acc"
proof -
  have "sum_list (map snd es) = sum_list (map (\<lambda>k. the (map_of es k)) (map fst es))"
    using assms(1) by (simp only: snd_eq_the_map_of)
  also have "\<dots> = (\<Sum>k\<in>set (map fst es). the (map_of es k))"
    using assms(1) by (rule sum_list_distinct_conv_sum_set)
  also have "\<dots> = (\<Sum>k\<in>fset (fmdom vp). the (fmlookup vp k))"
    using assms(2) by (auto simp: fmlookup_of_list fset_of_list.rep_eq)
  finally have "sum_list (map snd es) = (\<Sum>k\<in>fset (fmdom vp). the (fmlookup vp k))" .
  then show ?thesis
    by (simp only: addPowers_sum addPowers_sum_list [of es])
qed

lemma calculateTotalVotingPower_eq:
  "calculateTotalVotingPower m =
     (case m of None \<Rightarrow> 0 | Some vp \<Rightarrow> \<Sum>k\<in>fset (fmdom vp). the (fmlookup vp k))"
  by (cases m) (simp_all add: calculateTotalVotingPower_def addPowers_sum, simp add: range_entries_def)

lemma big_Cmp_le_0: "big_Cmp x y \<le> 0 \<longleftrightarrow> x \<le> y"
  by (simp add: big_Cmp_def)

lemma big_Cmp_ge_0: "0 \<le> big_Cmp x y \<longleftrightarrow> y \<le> x"
  by (simp add: big_Cmp_def)

lemma calculateQuorum_eq: "calculateQuorum t = 2 * t div 3 + 1"
  by (simp add: calculateQuorum_def big_Div_def mult.commute)

section \<open>The quorum query\<close>

lemma sum_known_senders:
  "(\<Sum>k\<in>fset s. case fmlookup vp k of Some vote \<Rightarrow> vote | None \<Rightarrow> 0) =
   (\<Sum>k\<in>fset (s |\<inter>| fmdom vp). the (fmlookup vp k))"
proof -
  have "(\<Sum>k\<in>fset (s |\<inter>| fmdom vp). the (fmlookup vp k)) =
        (\<Sum>k\<in>fset s \<inter> fset (fmdom vp). case fmlookup vp k of Some vote \<Rightarrow> vote | None \<Rightarrow> 0)"
    by (rule sum.cong) (auto simp: fmlookup_dom_iff)
  also have "\<dots> = (\<Sum>k\<in>fset s. case fmlookup vp k of Some vote \<Rightarrow> vote | None \<Rightarrow> 0)"
    by (rule sum.mono_neutral_left) (auto simp: fmlookup_dom_iff split: option.splits)
  finally show ?thesis by simp
qed

lemma HasQuorum_sum:
  "HasQuorum vm s =
     (case validatorsVotingPower vm of
        None \<Rightarrow> False
      | Some vp \<Rightarrow>
          quorumSize vm \<le> (\<Sum>k\<in>fset s. case fmlookup vp k of Some vote \<Rightarrow> vote | None \<Rightarrow> 0))"
  by (simp add: HasQuorum_def addVotes_sum big_Cmp_ge_0 Let_def split: option.splits)

lemma HasQuorum_managerABC: "HasQuorum managerABC {|''A'', ''B'', ''C''|}"
  by (simp add: HasQuorum_sum managerABC_def weightsABC_def fmlookup_of_list)

text \<open>
  C1. For every manager and every set of senders, \<^verbatim>\<open>HasQuorum\<close> returns false when
  the stored weight mapping is nil; otherwise it returns true exactly when the sum of
  the stored powers of those senders that are keys of the stored mapping is at least
  the stored threshold. Senders that are not keys add nothing.
\<close>

theorem HasQuorum_known_senders_reach_threshold:
  "HasQuorum vm s =
     (case validatorsVotingPower vm of
        None \<Rightarrow> False
      | Some vp \<Rightarrow> quorumSize vm \<le> (\<Sum>a\<in>fset (s |\<inter>| fmdom vp). the (fmlookup vp a)))"
  by (simp add: HasQuorum_sum sum_known_senders split: option.splits)

theorem HasQuorum_known_senders_reach_threshold_witness:
  "HasQuorum managerABC {|''A'', ''B'', ''C''|} \<and>
   \<not> HasQuorum managerABC {|''A'', ''B'', ''Z''|} \<and>
   \<not> HasQuorum managerNew {|''A'', ''B'', ''C''|}"
  using HasQuorum_known_senders_reach_threshold [of managerABC "{|''A'', ''B'', ''C''|}"]
    HasQuorum_known_senders_reach_threshold [of managerABC "{|''A'', ''B'', ''Z''|}"]
    HasQuorum_known_senders_reach_threshold [of managerNew "{|''A'', ''B'', ''C''|}"]
  by (simp add: managerABC_def managerNew_def weightsABC_def fmlookup_of_list
      fset_of_list.rep_eq)

text \<open>
  C9. When the stored mapping holds no negative power, \<^verbatim>\<open>HasQuorum\<close> is monotone:
  a set of senders that contains a set with quorum has quorum.
\<close>

theorem HasQuorum_monotone:
  assumes "validatorsVotingPower vm = Some vp"
    and "\<forall>a\<in>fset (fmdom vp). 0 \<le> the (fmlookup vp a)"
    and "s |\<subseteq>| s'" and "HasQuorum vm s"
  shows "HasQuorum vm s'"
proof -
  let ?f = "\<lambda>k. case fmlookup vp k of Some vote \<Rightarrow> vote | None \<Rightarrow> 0"
  have nonneg: "0 \<le> ?f k" for k
  proof (cases "fmlookup vp k")
    case None
    then show ?thesis by simp
  next
    case (Some vote)
    then have "k \<in> fset (fmdom vp)" by (simp add: fmdomI)
    with assms(2) have "0 \<le> the (fmlookup vp k)" by blast
    with Some show ?thesis by simp
  qed
  have "sum ?f (fset s) \<le> sum ?f (fset s')"
    using assms(3) by (intro sum_mono2) (auto simp: nonneg less_eq_fset.rep_eq)
  with assms(1,4) show ?thesis
    by (simp add: HasQuorum_sum)
qed

theorem HasQuorum_monotone_witness:
  "validatorsVotingPower managerABC = Some weightsABC \<and>
   fmdom weightsABC = {|''A'', ''B'', ''C''|} \<and>
   0 \<le> the (fmlookup weightsABC ''A'') \<and>
   0 \<le> the (fmlookup weightsABC ''B'') \<and>
   0 \<le> the (fmlookup weightsABC ''C'') \<and>
   {|''A'', ''B'', ''C''|} |\<subseteq>| {|''A'', ''B'', ''C'', ''Z''|} \<and>
   HasQuorum managerABC {|''A'', ''B'', ''C''|} \<and>
   HasQuorum managerABC {|''A'', ''B'', ''C'', ''Z''|}"
proof -
  have stored: "validatorsVotingPower managerABC = Some weightsABC"
    by (simp add: managerABC_def)
  have nonneg: "\<forall>a\<in>fset (fmdom weightsABC). 0 \<le> the (fmlookup weightsABC a)"
    by (simp add: weightsABC_def fmlookup_of_list fset_of_list.rep_eq)
  have sub: "{|''A'', ''B'', ''C''|} |\<subseteq>| {|''A'', ''B'', ''C'', ''Z''|}"
    by auto
  note larger = HasQuorum_monotone [OF stored nonneg sub HasQuorum_managerABC]
  have dom: "fmdom weightsABC = {|''A'', ''B'', ''C''|}"
    by (simp add: weightsABC_def)
  from stored nonneg dom sub HasQuorum_managerABC larger show ?thesis
    by simp
qed

section \<open>Quorum arithmetic\<close>

text \<open>
  C2. For every total \<open>T \<ge> 0\<close>, \<^verbatim>\<open>calculateQuorum\<close> returns the floor of \<open>2T/3\<close>
  plus one; on these totals the division also agrees with the one that truncates
  towards zero. The integers are unbounded, so doubling the total cannot overflow.
\<close>

theorem calculateQuorum_floor:
  "0 \<le> t \<Longrightarrow>
     calculateQuorum t = \<lfloor>2 * real_of_int t / 3\<rfloor> + 1 \<and>
     calculateQuorum t = (2 * t) sdiv 3 + 1"
proof
  assume t: "0 \<le> t"
  show "calculateQuorum t = \<lfloor>2 * real_of_int t / 3\<rfloor> + 1"
    unfolding calculateQuorum_eq by linarith
  show "calculateQuorum t = (2 * t) sdiv 3 + 1"
  proof (cases "t = 0")
    case True
    then show ?thesis by (simp add: calculateQuorum_eq signed_divide_int_def)
  next
    case False
    with t have "0 < t" by simp
    then show ?thesis by (simp add: calculateQuorum_eq signed_divide_int_def)
  qed
qed

theorem calculateQuorum_floor_witness:
  "(0::int) \<le> 12 \<and> calculateQuorum 12 = 9 \<and>
   \<lfloor>2 * real_of_int 12 / 3\<rfloor> + 1 = 9 \<and> (2 * 12) sdiv 3 + 1 = (9::int)"
  using calculateQuorum_floor [of 12] by (simp add: signed_divide_int_def)

text \<open>
  C8. For every total \<open>T > 0\<close>, the threshold computed by \<^verbatim>\<open>calculateQuorum\<close> is at
  least 1 and at most \<open>T\<close>.
\<close>

theorem calculateQuorum_bounds:
  "0 < t \<Longrightarrow> 1 \<le> calculateQuorum t \<and> calculateQuorum t \<le> t"
  unfolding calculateQuorum_eq by linarith

theorem calculateQuorum_bounds_witness:
  "(0::int) < 1 \<and> 1 \<le> calculateQuorum 1 \<and> calculateQuorum 1 \<le> 1"
  using calculateQuorum_bounds [of 1] by simp

section \<open>Initialisation\<close>

text \<open>
  C3. For every manager and every weight mapping whose powers sum to at most zero
  (the empty and the nil mapping among them), \<^verbatim>\<open>setCurrentVotingPower\<close> returns
  \<^verbatim>\<open>errVotingPowerNotCorrect\<close> and leaves the manager as it was, and so does
  \<^verbatim>\<open>Init\<close> when the backend answers with that mapping; \<^verbatim>\<open>HasQuorum\<close> answers
  afterwards as it did before.
\<close>

theorem non_positive_total_rejected_state_kept:
  assumes "(case m of None \<Rightarrow> 0 | Some vp \<Rightarrow> \<Sum>k\<in>fset (fmdom vp). the (fmlookup vp k)) \<le> 0"
  shows "setCurrentVotingPower vm m = (Some errVotingPowerNotCorrect, vm) \<and>
         (GetVotingPowers (backend vm) height = Inr m \<longrightarrow>
            Init vm height = (Some errVotingPowerNotCorrect, vm)) \<and>
         validatorsVotingPower (snd (setCurrentVotingPower vm m)) = validatorsVotingPower vm \<and>
         quorumSize (snd (setCurrentVotingPower vm m)) = quorumSize vm \<and>
         HasQuorum (snd (setCurrentVotingPower vm m)) s = HasQuorum vm s"
proof -
  have "big_Cmp (calculateTotalVotingPower m) 0 \<le> 0"
    using assms by (simp add: calculateTotalVotingPower_eq big_Cmp_le_0)
  then have "setCurrentVotingPower vm m = (Some errVotingPowerNotCorrect, vm)"
    by (simp add: setCurrentVotingPower_def)
  then show ?thesis
    by (simp add: Init_def)
qed

theorem non_positive_total_rejected_state_kept_witness:
  "(\<Sum>k\<in>fset (fmdom weightsZero). the (fmlookup weightsZero k)) \<le> 0 \<and>
   GetVotingPowers (backend managerABC) 2 = Inr (Some weightsZero) \<and>
   setCurrentVotingPower managerABC (Some weightsZero) =
     (Some errVotingPowerNotCorrect, managerABC) \<and>
   Init managerABC 2 = (Some errVotingPowerNotCorrect, managerABC) \<and>
   HasQuorum (snd (setCurrentVotingPower managerABC (Some weightsZero))) {|''A'', ''B'', ''C''|} =
     HasQuorum managerABC {|''A'', ''B'', ''C''|}"
proof -
  have total: "(case Some weightsZero of None \<Rightarrow> 0
                | Some vp \<Rightarrow> \<Sum>k\<in>fset (fmdom vp). the (fmlookup vp k)) \<le> 0"
    by (simp add: weightsZero_def fmlookup_of_list fset_of_list.rep_eq)
  have answer: "GetVotingPowers (backend managerABC) 2 = Inr (Some weightsZero)"
    by (simp add: managerABC_def exampleBackend_def)
  from non_positive_total_rejected_state_kept [OF total, of managerABC 2 "{|''A'', ''B'', ''C''|}"]
    total answer
  show ?thesis by simp
qed

text \<open>
  Construction establishes the consistency of the stored pair and every call keeps it,
  whatever mapping the backend answers with.
\<close>

lemma consistent_New: "NewValidatorManager b l = Inr vm \<Longrightarrow> consistent vm"
  by (auto simp: NewValidatorManager_def consistent_def split: sum.splits)

lemma consistent_setCurrentVotingPower:
  "consistent vm \<Longrightarrow> consistent (snd (setCurrentVotingPower vm m))"
proof (cases "calculateTotalVotingPower m \<le> 0")
  case True
  assume "consistent vm"
  with True show ?thesis
    by (simp add: setCurrentVotingPower_def big_Cmp_le_0 Let_def)
next
  case False
  then obtain vp where m: "m = Some vp"
    by (cases m) (simp_all add: calculateTotalVotingPower_eq)
  with False show ?thesis
    by (simp add: setCurrentVotingPower_def big_Cmp_le_0 Let_def consistent_def
        calculateTotalVotingPower_eq)
qed

lemma consistent_Init: "consistent vm \<Longrightarrow> consistent (snd (Init vm height))"
  by (simp add: Init_def consistent_setCurrentVotingPower split: sum.splits)

lemma consistent_HasPrepareQuorum:
  "consistent vm \<Longrightarrow> consistent (snd (HasPrepareQuorum prepare vm stateName p msgs))"
  by (simp add: HasPrepareQuorum_def consistent_def Let_def split: option.splits)

lemma consistent_call_step: "consistent vm \<Longrightarrow> consistent (call_step prepare vm c)"
  by (cases c) (simp_all add: consistent_Init consistent_HasPrepareQuorum)

lemma consistent_run_calls: "consistent vm \<Longrightarrow> consistent (run_calls prepare vm cs)"
  by (induction cs arbitrary: vm) (simp_all add: consistent_call_step)

text \<open>
  C7. In every state reached from a constructed manager by a sequence of calls of
  \<^verbatim>\<open>Init\<close>, \<^verbatim>\<open>HasQuorum\<close> and \<^verbatim>\<open>HasPrepareQuorum\<close>, the stored weight mapping is
  nil, or the stored threshold is \<^verbatim>\<open>calculateQuorum\<close> of the total power of the stored
  mapping and that total is positive.
\<close>

theorem reachable_threshold_matches_weights:
  assumes "NewValidatorManager b l = Inr vm"
  shows "validatorsVotingPower (run_calls prepare vm cs) = None \<or>
    (\<exists>vp. validatorsVotingPower (run_calls prepare vm cs) = Some vp \<and>
       quorumSize (run_calls prepare vm cs) =
         calculateQuorum (\<Sum>k\<in>fset (fmdom vp). the (fmlookup vp k)) \<and>
       0 < (\<Sum>k\<in>fset (fmdom vp). the (fmlookup vp k)))"
proof -
  have "consistent (run_calls prepare vm cs)"
    using assms by (intro consistent_run_calls consistent_New)
  then show ?thesis
    by (auto simp: consistent_def split: option.splits)
qed

lemma Init_managerNew_1: "Init managerNew 1 = (None, managerABC)"
  by (simp add: Init_def managerNew_def managerABC_def exampleBackend_def
      setCurrentVotingPower_def calculateTotalVotingPower_eq big_Cmp_le_0 Let_def
      calculateQuorum_eq weightsABC_def fmlookup_of_list fset_of_list.rep_eq)

lemma Init_managerABC_2: "Init managerABC 2 = (Some errVotingPowerNotCorrect, managerABC)"
  by (simp add: Init_def managerABC_def exampleBackend_def
      setCurrentVotingPower_def calculateTotalVotingPower_eq big_Cmp_le_0 Let_def
      weightsZero_def fmlookup_of_list fset_of_list.rep_eq)

theorem reachable_threshold_matches_weights_witness:
  "NewValidatorManager exampleBackend [] = Inr managerNew \<and>
   run_calls (1::nat) managerNew
     [CallInit 1, CallHasQuorum {|''A''|}, CallInit 2,
      CallHasPrepareQuorum 2 (Some (msgFrom ''A'')) [msgFrom ''B'']] = managerABC \<and>
   validatorsVotingPower managerABC = Some weightsABC \<and>
   quorumSize managerABC = calculateQuorum (\<Sum>k\<in>fset (fmdom weightsABC). the (fmlookup weightsABC k)) \<and>
   0 < (\<Sum>k\<in>fset (fmdom weightsABC). the (fmlookup weightsABC k))"
proof -
  let ?cs = "[CallInit 1, CallHasQuorum {|''A''|}, CallInit 2,
      CallHasPrepareQuorum 2 (Some (msgFrom ''A'')) [msgFrom ''B'']] :: nat call list"
  have new: "NewValidatorManager exampleBackend [] = Inr managerNew"
    by (simp add: NewValidatorManager_def exampleBackend_def managerNew_def)
  have run: "run_calls (1::nat) managerNew ?cs = managerABC"
    by (simp add: Init_managerNew_1 Init_managerABC_2 HasPrepareQuorum_def msgFrom_def)
  have stored: "validatorsVotingPower managerABC = Some weightsABC"
    by (simp add: managerABC_def)
  from reachable_threshold_matches_weights [OF new, of "1::nat" ?cs] new run stored
  show ?thesis by simp
qed

section \<open>The prepare quorum\<close>

lemma collectSenders_None:
  "collectSenders a msgs acc = None \<longleftrightarrow> (\<exists>m\<in>set msgs. From m = a)"
  by (induction msgs arbitrary: acc) auto

lemma collectSenders_Some:
  "\<forall>m\<in>set msgs. From m \<noteq> a \<Longrightarrow>
     collectSenders a msgs acc = Some (acc |\<union>| From |`| fset_of_list msgs)"
  by (induction msgs arbitrary: acc) auto

lemma convertMessageToAddressSet_eq:
  "convertMessageToAddressSet msgs = From |`| fset_of_list msgs"
  by (induction msgs) simp_all

text \<open>
  C4. For every phase, every proposal message that is present and every sequence of
  prepare messages of which one has the sender of the proposal as its sender,
  \<^verbatim>\<open>HasPrepareQuorum\<close> returns false, whatever the other messages weigh and whatever
  the manager has stored.
\<close>

theorem HasPrepareQuorum_proposer_among_senders:
  "\<exists>m\<in>set msgs. From m = From p \<Longrightarrow>
     fst (HasPrepareQuorum prepare vm stateName (Some p) msgs) = False"
  by (simp add: HasPrepareQuorum_def collectSenders_None [THEN iffD2])

theorem HasPrepareQuorum_proposer_among_senders_witness:
  "(\<exists>m\<in>set [msgFrom ''A'', msgFrom ''B'', msgFrom ''C'', msgFrom ''P'']. From m = From (msgFrom ''P'')) \<and>
   fst (HasPrepareQuorum (1::nat) managerABC 1 (Some (msgFrom ''P''))
          [msgFrom ''A'', msgFrom ''B'', msgFrom ''C'', msgFrom ''P'']) = False \<and>
   HasQuorum managerABC {|''A'', ''B'', ''C''|}"
proof -
  have among: "\<exists>m\<in>set [msgFrom ''A'', msgFrom ''B'', msgFrom ''C'', msgFrom ''P''].
      From m = From (msgFrom ''P'')"
    by simp
  from HasPrepareQuorum_proposer_among_senders [OF among, of "1::nat" managerABC 1] among
    HasQuorum_managerABC
  show ?thesis by blast
qed

text \<open>
  C5. For every phase and every sequence of prepare messages, \<^verbatim>\<open>HasPrepareQuorum\<close>
  without a proposal message returns false; it writes one error entry to the log when
  the phase is \<^verbatim>\<open>prepare\<close> and none when the phase is another one.
\<close>

theorem HasPrepareQuorum_absent_proposal:
  "fst (HasPrepareQuorum prepare vm stateName None msgs) = False \<and>
   logger (snd (HasPrepareQuorum prepare vm stateName None msgs)) =
     logger vm @
       (if stateName = prepare
        then [Error ''HasPrepareQuorum - proposalMessage is not set''] else [])"
  by (simp add: HasPrepareQuorum_def)

theorem HasPrepareQuorum_absent_proposal_witness:
  "fst (HasPrepareQuorum (1::nat) managerABC 1 None [msgFrom ''B'', msgFrom ''C'']) = False \<and>
   logger (snd (HasPrepareQuorum (1::nat) managerABC 1 None [msgFrom ''B'', msgFrom ''C''])) =
     [Error ''HasPrepareQuorum - proposalMessage is not set''] \<and>
   fst (HasPrepareQuorum (1::nat) managerABC 2 None [msgFrom ''B'', msgFrom ''C'']) = False \<and>
   logger (snd (HasPrepareQuorum (1::nat) managerABC 2 None [msgFrom ''B'', msgFrom ''C''])) = []"
  using HasPrepareQuorum_absent_proposal [of "1::nat" managerABC 1 "[msgFrom ''B'', msgFrom ''C'']"]
    HasPrepareQuorum_absent_proposal [of "1::nat" managerABC 2 "[msgFrom ''B'', msgFrom ''C'']"]
  by (simp add: managerABC_def)

text \<open>
  C6. For every phase, every proposal message that is present and every sequence of
  prepare messages none of which has the sender of the proposal as its sender,
  \<^verbatim>\<open>HasPrepareQuorum\<close> returns what \<^verbatim>\<open>HasQuorum\<close> returns on the set that holds
  the sender of the proposal and the senders of the messages, each once. It writes
  nothing to the log.
\<close>

theorem HasPrepareQuorum_delegates:
  "\<forall>m\<in>set msgs. From m \<noteq> From p \<Longrightarrow>
     HasPrepareQuorum prepare vm stateName (Some p) msgs =
       (HasQuorum vm (finsert (From p) (From |`| fset_of_list msgs)), vm)"
  by (simp add: HasPrepareQuorum_def collectSenders_Some)

theorem HasPrepareQuorum_delegates_witness:
  "From (msgFrom ''A'') \<notin> From ` set [msgFrom ''B'', msgFrom ''C'', msgFrom ''B''] \<and>
   HasPrepareQuorum (1::nat) managerABC 1 (Some (msgFrom ''A''))
       [msgFrom ''B'', msgFrom ''C'', msgFrom ''B''] = (True, managerABC) \<and>
   HasPrepareQuorum (1::nat) managerABC 1 (Some (msgFrom ''A''))
       [msgFrom ''B'', msgFrom ''B''] = (False, managerABC)"
proof -
  have none3: "\<forall>m\<in>set [msgFrom ''B'', msgFrom ''C'', msgFrom ''B'']. From m \<noteq> From (msgFrom ''A'')"
    by (simp add: msgFrom_def)
  have none2: "\<forall>m\<in>set [msgFrom ''B'', msgFrom ''B'']. From m \<noteq> From (msgFrom ''A'')"
    by (simp add: msgFrom_def)
  have yes: "HasQuorum managerABC {|''A'', ''B'', ''C'', ''B''|} = True"
    by (simp add: HasQuorum_sum managerABC_def weightsABC_def fmlookup_of_list sum.insert_if)
  have no: "HasQuorum managerABC {|''A'', ''B'', ''B''|} = False"
    by (simp add: HasQuorum_sum managerABC_def weightsABC_def fmlookup_of_list sum.insert_if)
  from HasPrepareQuorum_delegates [OF none3, of "1::nat" managerABC 1]
    HasPrepareQuorum_delegates [OF none2, of "1::nat" managerABC 1] none3 yes no
  show ?thesis
    by (simp add: msgFrom_def)
qed

end
